theory Spec2Isabelle
  imports Main
begin

section \<open>Data model (app/models.py, app/storage.py)\<close>

text \<open>
  Python values held in a run state. Immutable values are carried directly; a mutable
  nested value (a list) is a reference \<open>VRef a\<close> into a heap of list objects, so that
  two dictionaries holding the same reference share the object, as in Python.
\<close>

type_synonym addr = nat

datatype pyval = VNone | VBool bool | VInt int | VStr string | VRef addr

type_synonym pydict = "string \<rightharpoonup> pyval"

type_synonym heap = "addr \<rightharpoonup> pyval list"

text \<open>
  What a tool can read and change besides its argument, and what a guard can read
  besides the state: the heap of nested objects and the world outside the process
  (clock, network, random source), abstracted to a number.
\<close>

record world =
  heap :: heap
  outside :: nat

record NodeDefinition =
  n_id :: string
  tool_name :: string
  config :: pydict

record EdgeDefinition =
  source :: string
  target :: string
  condition :: "string option"

record GraphDefinition =
  g_id :: string
  nodes :: "NodeDefinition list"
  edges :: "EdgeDefinition list"
  start_node_id :: string

datatype RunStatus = PENDING | RUNNING | COMPLETED | FAILED

record RunLogEntry =
  node_id :: string
  state_snapshot :: pydict
  message :: "string option"

record RunState =
  run_id :: string
  graph_id :: string
  status :: RunStatus
  current_node_id :: "string option"
  state :: pydict
  logs :: "RunLogEntry list"

text \<open>The module-level stores \<open>graphs\<close> and \<open>runs\<close>, with the world the tools act on.\<close>

record system =
  graphs :: "string \<rightharpoonup> GraphDefinition"
  runs :: "string \<rightharpoonup> RunState"
  env :: world

text \<open>The exceptions that leave the engine, with the message the source gives them.\<close>

datatype error = KeyError string | ValueError string | ToolError

text \<open>Python's f-string \<open>'{x}'\<close>: the text of \<open>x\<close> between single quotes.\<close>

definition quoted :: "string \<Rightarrow> string" where
  "quoted x = [CHR 0x27] @ x @ [CHR 0x27]"

section \<open>Tool registry (app/registry.py)\<close>

text \<open>
  A tool is a Python callable applied to the run's state dictionary itself. It either
  raises, returns something that is not a dictionary, or returns a dictionary; on the
  way it may change the world and the dictionary it was handed in place.
\<close>

datatype tool_return = Raises | ReturnsNonDict | ReturnsDict pydict

type_synonym tool = "world \<Rightarrow> pydict \<Rightarrow> tool_return \<times> world \<times> pydict"

type_synonym ToolRegistry = "string \<rightharpoonup> tool"

definition get_tool :: "ToolRegistry \<Rightarrow> string \<Rightarrow> error + tool" where
  "get_tool reg name =
     (case reg name of
        None \<Rightarrow> Inl (KeyError (''Tool '' @ quoted name @ '' not found in registry''))
      | Some func \<Rightarrow> Inr func)"

definition run_tool ::
  "ToolRegistry \<Rightarrow> string \<Rightarrow> world \<Rightarrow> pydict \<Rightarrow> (error + pydict) \<times> world \<times> pydict" where
  "run_tool reg name w st =
     (case get_tool reg name of
        Inl e \<Rightarrow> (Inl e, w, st)
      | Inr func \<Rightarrow>
          (case func w st of
             (Raises, w', st') \<Rightarrow> (Inl ToolError, w', st')
           | (ReturnsNonDict, w', st') \<Rightarrow>
               (Inl (ValueError ''Tool must return a dict to merge into state''), w', st')
           | (ReturnsDict result, w', st') \<Rightarrow> (Inr result, w', st')))"

section \<open>Edge resolution (app/engine.py, \<open>_find_next_edge\<close>)\<close>

text \<open>
  Python's \<open>eval\<close> is not part of the repository: the evaluator of guard expressions is
  a parameter. The source calls it with empty globals and the single local \<open>state\<close>,
  but the builtins stay within reach of the expression, so a guard can read the state,
  the objects the state refers to and, through an import, the world outside (a clock, a
  random source): the evaluator is applied to the expression, the world and the state
  dictionary. \<open>bool(eval(...))\<close> yields a truth value or raises an \<open>Exception\<close>, the
  class the \<open>except\<close> clause of the source catches. The guards covered are those that
  leave the state and the world as they found them and end in one of these two ways; a
  guard that changes the state, or that leaves by \<open>SystemExit\<close> or
  \<open>KeyboardInterrupt\<close>, is not covered.
\<close>

datatype guard_result = GValue bool | GException

type_synonym evaluator = "string \<Rightarrow> world \<Rightarrow> pydict \<Rightarrow> guard_result"

text \<open>The \<open>for edge in candidates\<close> loop with its early returns.\<close>

fun first_passing :: "evaluator \<Rightarrow> world \<Rightarrow> pydict \<Rightarrow> EdgeDefinition list \<Rightarrow> EdgeDefinition option" where
  "first_passing ev w st [] = None"
| "first_passing ev w st (edge # rest) =
     (case condition edge of
        None \<Rightarrow> Some edge
      | Some c \<Rightarrow>
          (case ev c w st of
             GValue True \<Rightarrow> Some edge
           | GValue False \<Rightarrow> first_passing ev w st rest
           | GException \<Rightarrow> first_passing ev w st rest))"

definition find_next_edge ::
  "evaluator \<Rightarrow> GraphDefinition \<Rightarrow> string \<Rightarrow> world \<Rightarrow> pydict \<Rightarrow> EdgeDefinition option" where
  "find_next_edge ev graph cur w st =
     (let candidates = filter (\<lambda>e. source e = cur) (edges graph)
      in if candidates = [] then None else first_passing ev w st candidates)"

text \<open>
  The contract of edge resolution in the words of the specification: an edge is
  eligible when it has no guard or its guard evaluates true, and the answer is the first
  eligible edge among the outgoing edges of the node, in declared order.
\<close>

definition eligible :: "evaluator \<Rightarrow> world \<Rightarrow> pydict \<Rightarrow> EdgeDefinition \<Rightarrow> bool" where
  "eligible ev w st e =
     (case condition e of None \<Rightarrow> True | Some c \<Rightarrow> ev c w st = GValue True)"

definition outgoing :: "GraphDefinition \<Rightarrow> string \<Rightarrow> EdgeDefinition list" where
  "outgoing graph cur = filter (\<lambda>e. source e = cur) (edges graph)"

definition spec_next_edge ::
  "evaluator \<Rightarrow> GraphDefinition \<Rightarrow> string \<Rightarrow> world \<Rightarrow> pydict \<Rightarrow> EdgeDefinition option" where
  "spec_next_edge ev graph cur w st = List.find (eligible ev w st) (outgoing graph cur)"

section \<open>The run loop (app/engine.py, \<open>run_graph_once\<close>)\<close>

text \<open>
  The variables of the loop: the world, the \<open>run_state\<close> object and the local
  \<open>current_node_id\<close>. A run is followed on its own, from start to end: each \<open>await\<close>
  is the call it awaits. Dictionary keys are strings, as the type annotations of the
  source say.
\<close>

record loop_state =
  ls_world :: world
  run_state :: RunState
  current :: string

datatype iteration = Continue loop_state | Break loop_state | Raised error loop_state

text \<open>\<open>next(n for n in graph.nodes if n.id == current_node_id)\<close>; \<open>None\<close> is StopIteration.\<close>

definition find_node :: "GraphDefinition \<Rightarrow> string \<Rightarrow> NodeDefinition option" where
  "find_node graph cur = List.find (\<lambda>n. n_id n = cur) (nodes graph)"

definition missing_entry :: "loop_state \<Rightarrow> RunLogEntry" where
  "missing_entry s =
     \<lparr>node_id = current s, state_snapshot = state (run_state s),
      message = Some (''Node '' @ quoted (current s) @ '' not found in graph'')\<rparr>"

definition executed_entry :: "NodeDefinition \<Rightarrow> pydict \<Rightarrow> RunLogEntry" where
  "executed_entry node st =
     \<lparr>node_id = n_id node, state_snapshot = st,
      message = Some (''Executed tool '' @ quoted (tool_name node))\<rparr>"

definition abort_entry :: "loop_state \<Rightarrow> RunLogEntry" where
  "abort_entry s =
     \<lparr>node_id = current s, state_snapshot = state (run_state s),
      message = Some ''Max steps reached; aborting (possible infinite loop)''\<rparr>"

text \<open>
  One pass through the body of \<open>for _ in range(max_steps)\<close>: resolve the node, run its
  tool on \<open>run_state.state\<close>, \<open>update\<close> the state with the result (\<open>++\<close>, the
  right-biased override of maps), append the log entry with a \<open>copy()\<close> of the state
  (the top-level mapping; references to nested objects are kept), resolve the next edge.
\<close>

definition iteration_body ::
  "evaluator \<Rightarrow> ToolRegistry \<Rightarrow> GraphDefinition \<Rightarrow> loop_state \<Rightarrow> iteration" where
  "iteration_body ev registry graph s =
     (case find_node graph (current s) of
        None \<Rightarrow>
          Break (s\<lparr>run_state := (run_state s)
                   \<lparr>status := FAILED,
                    logs := logs (run_state s) @ [missing_entry s]\<rparr>\<rparr>)
      | Some node \<Rightarrow>
          (case run_tool registry (tool_name node) (ls_world s) (state (run_state s)) of
             (Inl e, w', st') \<Rightarrow>
               Raised e (s\<lparr>ls_world := w', run_state := (run_state s)\<lparr>state := st'\<rparr>\<rparr>)
           | (Inr tool_result, w', st') \<Rightarrow>
               (let merged = st' ++ tool_result;
                    logged = (run_state s)
                      \<lparr>state := merged,
                       logs := logs (run_state s) @ [executed_entry node merged]\<rparr>
                in case find_next_edge ev graph (current s) w' merged of
                     None \<Rightarrow>
                       Break (s\<lparr>ls_world := w',
                                run_state := logged\<lparr>status := COMPLETED,
                                                     current_node_id := None\<rparr>\<rparr>)
                   | Some next_edge \<Rightarrow>
                       Continue \<lparr>ls_world = w',
                                 run_state = logged\<lparr>current_node_id := Some (target next_edge)\<rparr>,
                                 current = target next_edge\<rparr>)))"

text \<open>The \<open>else\<close> branch of the loop: the budget ran out without a \<open>break\<close>.\<close>

definition max_steps_reached :: "loop_state \<Rightarrow> loop_state" where
  "max_steps_reached s =
     s\<lparr>run_state := (run_state s)
        \<lparr>status := FAILED, logs := logs (run_state s) @ [abort_entry s]\<rparr>\<rparr>"

text \<open>The \<open>for ... else\<close> loop over the remaining budget.\<close>

fun for_loop ::
  "evaluator \<Rightarrow> ToolRegistry \<Rightarrow> GraphDefinition \<Rightarrow> nat \<Rightarrow> loop_state \<Rightarrow> (error \<times> loop_state) + loop_state" where
  "for_loop ev registry graph 0 s = Inr (max_steps_reached s)"
| "for_loop ev registry graph (Suc k) s =
     (case iteration_body ev registry graph s of
        Continue s' \<Rightarrow> for_loop ev registry graph k s'
      | Break s' \<Rightarrow> Inr s'
      | Raised e s' \<Rightarrow> Inl (e, s'))"

text \<open>The loop variables as \<open>run_graph_once\<close> sets them up before the loop.\<close>

definition initial_loop_state ::
  "system \<Rightarrow> GraphDefinition \<Rightarrow> string \<Rightarrow> string \<Rightarrow> pydict \<Rightarrow> loop_state" where
  "initial_loop_state sys graph uuid gid initial_state =
     \<lparr>ls_world = env sys,
      run_state = \<lparr>run_id = uuid, graph_id = gid, status = RUNNING,
                   current_node_id = Some (start_node_id graph),
                   state = initial_state, logs = []\<rparr>,
      current = start_node_id graph\<rparr>"

text \<open>
  The run store holds a reference to the \<open>run_state\<close> object from the moment it is
  created, so what the store shows under the run id is the object as the loop left it,
  whether the function returns or an exception leaves it.
\<close>

definition stored :: "system \<Rightarrow> string \<Rightarrow> loop_state \<Rightarrow> system" where
  "stored sys uuid s = sys\<lparr>runs := (runs sys)(uuid \<mapsto> run_state s), env := ls_world s\<rparr>"

text \<open>
  \<open>run_graph_once\<close>. The fresh \<open>uuid4()\<close> is the parameter \<open>uuid\<close>; \<open>range(max_steps)\<close>
  is empty for a budget below one.
\<close>

definition run_graph_once ::
  "evaluator \<Rightarrow> string \<Rightarrow> system \<Rightarrow> string \<Rightarrow> pydict \<Rightarrow> ToolRegistry \<Rightarrow> int
     \<Rightarrow> (error \<times> system) + (RunState \<times> system)" where
  "run_graph_once ev uuid sys gid initial_state registry max_steps =
     (case graphs sys gid of
        None \<Rightarrow> Inl (KeyError (''Graph '' @ quoted gid @ '' not found''), sys)
      | Some graph \<Rightarrow>
          (case for_loop ev registry graph (nat max_steps)
                  (initial_loop_state sys graph uuid gid initial_state) of
             Inl (e, s) \<Rightarrow> Inl (e, stored sys uuid s)
           | Inr s \<Rightarrow> Inr (run_state s, stored sys uuid s)))"

text \<open>The loop variables after \<open>k\<close> passes that all went on to a next node.\<close>

fun after_iterations ::
  "evaluator \<Rightarrow> ToolRegistry \<Rightarrow> GraphDefinition \<Rightarrow> nat \<Rightarrow> loop_state \<Rightarrow> loop_state option" where
  "after_iterations ev registry graph 0 s = Some s"
| "after_iterations ev registry graph (Suc k) s =
     (case iteration_body ev registry graph s of
        Continue s' \<Rightarrow> after_iterations ev registry graph k s'
      | Break s' \<Rightarrow> None
      | Raised e s' \<Rightarrow> None)"

text \<open>The loop variables a pass leaves behind, whichever way it ends.\<close>

definition loop_state_of :: "iteration \<Rightarrow> loop_state" where
  "loop_state_of it = (case it of Continue s \<Rightarrow> s | Break s \<Rightarrow> s | Raised e s \<Rightarrow> s)"

section \<open>Example evaluator, tools and graphs\<close>

text \<open>
  An evaluator that knows two guards. \<open>state['n'] > 0\<close> has Python's outcome for each
  kind of value under the key (a missing key and a non-number raise).
  \<open>__import__('random').random() < 0.5\<close> reads the world outside: the draw is below one
  half in the worlds with an even number. Every other expression raises.
\<close>

definition demo_eval :: evaluator where
  "demo_eval c w st =
     (if c = ''state['n'] > 0''
      then (case st ''n'' of
              Some (VInt i) \<Rightarrow> GValue (0 < i)
            | Some (VBool b) \<Rightarrow> GValue b
            | _ \<Rightarrow> GException)
      else if c = ''__import__('random').random() < 0.5''
      then GValue (even (outside w))
      else GException)"

text \<open>The tool \<open>lambda state: {"n": state.get("n", 0) + 1}\<close>.\<close>

definition tool_count :: tool where
  "tool_count w st =
     (case st ''n'' of
        None \<Rightarrow> (ReturnsDict [''n'' \<mapsto> VInt 1], w, st)
      | Some (VInt i) \<Rightarrow> (ReturnsDict [''n'' \<mapsto> VInt (i + 1)], w, st)
      | Some _ \<Rightarrow> (Raises, w, st))"

text \<open>The tool \<open>lambda state: {"x": 1}\<close>.\<close>

definition tool_set_x :: tool where
  "tool_set_x w st = (ReturnsDict [''x'' \<mapsto> VInt 1], w, st)"

definition demo_world :: world where
  "demo_world = \<lparr>heap = Map.empty, outside = 0\<rparr>"

definition demo_registry :: ToolRegistry where
  "demo_registry = [''count'' \<mapsto> tool_count]"

definition fallback_graph :: GraphDefinition where
  "fallback_graph =
     \<lparr>g_id = ''fallback'',
      nodes = [\<lparr>n_id = ''a'', tool_name = ''count'', config = Map.empty\<rparr>,
               \<lparr>n_id = ''b'', tool_name = ''unregistered'', config = Map.empty\<rparr>],
      edges = [\<lparr>source = ''a'', target = ''a'', condition = Some ''state['missing'] > 0''\<rparr>,
               \<lparr>source = ''a'', target = ''b'', condition = None\<rparr>],
      start_node_id = ''a''\<rparr>"

definition dangling_graph :: GraphDefinition where
  "dangling_graph =
     \<lparr>g_id = ''dangling'',
      nodes = [\<lparr>n_id = ''a'', tool_name = ''count'', config = Map.empty\<rparr>],
      edges = [\<lparr>source = ''a'', target = ''ghost'', condition = None\<rparr>],
      start_node_id = ''a''\<rparr>"

definition merge_graph :: GraphDefinition where
  "merge_graph =
     \<lparr>g_id = ''merge'',
      nodes = [\<lparr>n_id = ''a'', tool_name = ''set_x'', config = Map.empty\<rparr>],
      edges = [],
      start_node_id = ''a''\<rparr>"

definition merge_start :: loop_state where
  "merge_start =
     \<lparr>ls_world = demo_world,
      run_state = \<lparr>run_id = ''r'', graph_id = ''merge'', status = RUNNING,
                   current_node_id = Some ''a'',
                   state = [''x'' \<mapsto> VInt 0, ''y'' \<mapsto> VInt 2], logs = []\<rparr>,
      current = ''a''\<rparr>"

definition demo_system :: system where
  "demo_system =
     \<lparr>graphs = [''fallback'' \<mapsto> fallback_graph, ''dangling'' \<mapsto> dangling_graph],
      runs = Map.empty, env = demo_world\<rparr>"

definition dangling_after_one :: loop_state where
  "dangling_after_one =
     \<lparr>ls_world = demo_world,
      run_state = \<lparr>run_id = ''run-1'', graph_id = ''dangling'', status = RUNNING,
                   current_node_id = Some ''ghost'',
                   state = [''n'' \<mapsto> VInt 1],
                   logs = [\<lparr>node_id = ''a'', state_snapshot = [''n'' \<mapsto> VInt 1],
                            message = Some (''Executed tool '' @ quoted ''count'')\<rparr>]\<rparr>,
      current = ''ghost''\<rparr>"

definition fallback_after_one :: loop_state where
  "fallback_after_one =
     \<lparr>ls_world = demo_world,
      run_state = \<lparr>run_id = ''run-2'', graph_id = ''fallback'', status = RUNNING,
                   current_node_id = Some ''b'',
                   state = [''n'' \<mapsto> VInt 1],
                   logs = [\<lparr>node_id = ''a'', state_snapshot = [''n'' \<mapsto> VInt 1],
                            message = Some (''Executed tool '' @ quoted ''count'')\<rparr>]\<rparr>,
      current = ''b''\<rparr>"

text \<open>The tool \<open>state["items"].append(1); return {}\<close>: it changes a nested list in place.\<close>

definition tool_append :: tool where
  "tool_append w st =
     (case st ''items'' of
        Some (VRef a) \<Rightarrow>
          (case heap w a of
             Some xs \<Rightarrow> (ReturnsDict Map.empty, w\<lparr>heap := (heap w)(a \<mapsto> xs @ [VInt 1])\<rparr>, st)
           | None \<Rightarrow> (Raises, w, st))
      | _ \<Rightarrow> (Raises, w, st))"

definition nested_registry :: ToolRegistry where
  "nested_registry = [''append'' \<mapsto> tool_append]"

definition self_loop_graph :: GraphDefinition where
  "self_loop_graph =
     \<lparr>g_id = ''self_loop'',
      nodes = [\<lparr>n_id = ''loop'', tool_name = ''count'', config = Map.empty\<rparr>],
      edges = [\<lparr>source = ''loop'', target = ''loop'', condition = Some ''state['n'] > 0''\<rparr>],
      start_node_id = ''loop''\<rparr>"

definition nested_graph :: GraphDefinition where
  "nested_graph =
     \<lparr>g_id = ''nested'',
      nodes = [\<lparr>n_id = ''a'', tool_name = ''append'', config = Map.empty\<rparr>],
      edges = [\<lparr>source = ''a'', target = ''a'', condition = None\<rparr>],
      start_node_id = ''a''\<rparr>"

text \<open>From \<open>a\<close> the run goes on to \<open>b\<close> when a random draw is below one half.\<close>

definition coin_graph :: GraphDefinition where
  "coin_graph =
     \<lparr>g_id = ''coin'',
      nodes = [\<lparr>n_id = ''a'', tool_name = ''count'', config = Map.empty\<rparr>,
               \<lparr>n_id = ''b'', tool_name = ''count'', config = Map.empty\<rparr>],
      edges = [\<lparr>source = ''a'', target = ''b'',
                condition = Some ''__import__('random').random() < 0.5''\<rparr>],
      start_node_id = ''a''\<rparr>"

definition loop_system :: system where
  "loop_system =
     \<lparr>graphs = [''self_loop'' \<mapsto> self_loop_graph, ''nested'' \<mapsto> nested_graph,
                ''coin'' \<mapsto> coin_graph],
      runs = Map.empty, env = \<lparr>heap = [0 \<mapsto> []], outside = 0\<rparr>\<rparr>"

text \<open>The loop variables at the start of a run of the graph with the nested list.\<close>

definition nested_start :: loop_state where
  "nested_start =
     initial_loop_state loop_system nested_graph ''run-4'' ''nested'' [''items'' \<mapsto> VRef 0]"

section \<open>Observations on results\<close>

text \<open>The run state the caller receives, when the call returns one.\<close>

definition returned :: "(error \<times> system) + (RunState \<times> system) \<Rightarrow> RunState option" where
  "returned r = (case r of Inl x \<Rightarrow> None | Inr (rs, sys') \<Rightarrow> Some rs)"

text \<open>
  What reading \<open>d[k]\<close> shows when the value is a list: the content the heap holds for the
  reference now.
\<close>

definition read_list :: "heap \<Rightarrow> pydict \<Rightarrow> string \<Rightarrow> pyval list option" where
  "read_list h d k = (case d k of Some (VRef a) \<Rightarrow> h a | _ \<Rightarrow> None)"

text \<open>\<open>run_state.logs[0].state_snapshot["items"]\<close> as a reader sees it.\<close>

definition first_snapshot_items :: "loop_state \<Rightarrow> pyval list option" where
  "first_snapshot_items s =
     (case logs (run_state s) of
        [] \<Rightarrow> None
      | entry # rest \<Rightarrow> read_list (heap (ls_world s)) (state_snapshot entry) ''items'')"










section \<open>Properties of edge resolution\<close>

lemma first_passing_find: "first_passing ev w st es = List.find (eligible ev w st) es"
proof (induction es)
  case Nil
  show ?case by simp
next
  case (Cons e es)
  show ?case
  proof (cases "condition e")
    case None
    then show ?thesis by (simp add: eligible_def)
  next
    case (Some c)
    then show ?thesis
      using Cons.IH by (cases "ev c w st") (auto simp: eligible_def)
  qed
qed

lemma find_next_edge_find:
  "find_next_edge ev graph cur w st =
     List.find (eligible ev w st) (filter (\<lambda>e. source e = cur) (edges graph))"
  by (simp add: find_next_edge_def first_passing_find Let_def)

lemma find_skip_ineligible:
  "\<not> P x \<Longrightarrow> List.find P (xs @ x # ys) = List.find P (xs @ ys)"
  by (induction xs) auto

text \<open>
  Claim C1. For every graph, node id and state, edge resolution looks only at the edges
  whose source is the given node, in declared order, and returns the first of them that
  has no guard or whose guard evaluates true; it returns none when there is no such edge.
\<close>

theorem find_next_edge_first_eligible:
  "find_next_edge ev graph cur w st = spec_next_edge ev graph cur w st"
  by (simp add: find_next_edge_def spec_next_edge_def outgoing_def first_passing_find Let_def)

section \<open>Properties of the run loop\<close>

lemma iteration_body_missing:
  "find_node graph (current s) = None \<Longrightarrow>
   iteration_body ev registry graph s =
     Break (s\<lparr>run_state := (run_state s)
              \<lparr>status := FAILED, logs := logs (run_state s) @ [missing_entry s]\<rparr>\<rparr>)"
  by (simp add: iteration_body_def)

lemma iteration_body_raised:
  "find_node graph (current s) = Some node \<Longrightarrow>
   run_tool registry (tool_name node) (ls_world s) (state (run_state s)) = (Inl e, w', st') \<Longrightarrow>
   iteration_body ev registry graph s =
     Raised e (s\<lparr>ls_world := w', run_state := (run_state s)\<lparr>state := st'\<rparr>\<rparr>)"
  by (simp add: iteration_body_def)

lemma for_loop_after:
  "after_iterations ev registry graph k s = Some s' \<Longrightarrow>
   for_loop ev registry graph (k + n) s = for_loop ev registry graph n s'"
proof (induction k arbitrary: s)
  case 0
  then show ?case by simp
next
  case (Suc k)
  then show ?case
    by (cases "iteration_body ev registry graph s") auto
qed

text \<open>
  Claim C4. An edge whose guard raises when evaluated against the current state counts
  as not matching: resolution gives what it gives on the graph without that edge, so the
  search goes on with the next candidate in declared order. No guard aborts the run: an
  exception leaves a pass of the loop only when the invocation of the node's tool fails.
\<close>

theorem guard_error_skips_edge:
  assumes "edges graph = pre @ edge # post"
    and "condition edge = Some c"
    and "ev c w st = GException"
  shows "find_next_edge ev graph cur w st =
           find_next_edge ev (graph\<lparr>edges := pre @ post\<rparr>) cur w st \<and>
         (\<forall>registry s e s'. iteration_body ev registry graph s = Raised e s' \<longrightarrow>
            (\<exists>node. find_node graph (current s) = Some node \<and>
               fst (run_tool registry (tool_name node) (ls_world s) (state (run_state s))) = Inl e))"
proof
  have inel: "\<not> eligible ev w st edge"
    using assms(2,3) by (simp add: eligible_def)
  show "find_next_edge ev graph cur w st =
          find_next_edge ev (graph\<lparr>edges := pre @ post\<rparr>) cur w st"
  proof (cases "source edge = cur")
    case True
    then show ?thesis
      using inel assms(1)
      by (simp add: find_next_edge_find
          find_skip_ineligible)
  next
    case False
    then show ?thesis
      using assms(1)
      by (simp add: find_next_edge_find)
  qed
next
  show "\<forall>registry s e s'. iteration_body ev registry graph s = Raised e s' \<longrightarrow>
          (\<exists>node. find_node graph (current s) = Some node \<and>
             fst (run_tool registry (tool_name node) (ls_world s) (state (run_state s))) = Inl e)"
    by (auto simp: iteration_body_def Let_def split: option.splits prod.splits sum.splits)
qed


theorem guard_error_skips_edge_witness:
  "edges fallback_graph =
     [] @ \<lparr>source = ''a'', target = ''a'', condition = Some ''state['missing'] > 0''\<rparr>
        # [\<lparr>source = ''a'', target = ''b'', condition = None\<rparr>] \<and>
   demo_eval ''state['missing'] > 0'' demo_world Map.empty = GException \<and>
   find_next_edge demo_eval fallback_graph ''a'' demo_world Map.empty =
     find_next_edge demo_eval
       (fallback_graph\<lparr>edges := [] @ [\<lparr>source = ''a'', target = ''b'', condition = None\<rparr>]\<rparr>)
       ''a'' demo_world Map.empty \<and>
   find_next_edge demo_eval fallback_graph ''a'' demo_world Map.empty =
     Some \<lparr>source = ''a'', target = ''b'', condition = None\<rparr>"
proof -
  have e: "edges fallback_graph =
     [] @ \<lparr>source = ''a'', target = ''a'', condition = Some ''state['missing'] > 0''\<rparr>
        # [\<lparr>source = ''a'', target = ''b'', condition = None\<rparr>]"
    by (simp add: fallback_graph_def)
  have c: "condition \<lparr>source = ''a'', target = ''a'', condition = Some ''state['missing'] > 0''\<rparr>
             = Some ''state['missing'] > 0''"
    by simp
  have g: "demo_eval ''state['missing'] > 0'' demo_world Map.empty = GException"
    by (simp add: demo_eval_def)
  have r: "find_next_edge demo_eval
       (fallback_graph\<lparr>edges := [] @ [\<lparr>source = ''a'', target = ''b'', condition = None\<rparr>]\<rparr>)
       ''a'' demo_world Map.empty = Some \<lparr>source = ''a'', target = ''b'', condition = None\<rparr>"
    by (simp add: find_next_edge_def)
  show ?thesis
    using guard_error_skips_edge
      [where graph = fallback_graph and pre = "[]"
         and edge = "\<lparr>source = ''a'', target = ''a'', condition = Some ''state['missing'] > 0''\<rparr>"
         and post = "[\<lparr>source = ''a'', target = ''b'', condition = None\<rparr>]"
         and c = "''state['missing'] > 0''" and ev = demo_eval
         and w = demo_world and st = Map.empty and cur = "''a''"]
      e c g r
    by simp
qed

text \<open>
  Claim C3. In every pass, the mapping the tool returns is merged into the run state
  with right-biased overwrite: a key of the tool result takes the result's value, every
  other key keeps the value it had when the tool returned. The state \<open>{x:0, y:2}\<close>
  merged with the result \<open>{x:1}\<close> is \<open>{x:1, y:2}\<close>.
\<close>

theorem merge_right_biased:
  assumes "find_node graph (current s) = Some node"
    and "run_tool registry (tool_name node) (ls_world s) (state (run_state s)) =
           (Inr tool_result, w', st')"
  shows "state (run_state (loop_state_of (iteration_body ev registry graph s))) =
           st' ++ tool_result \<and>
         (\<forall>k \<in> dom tool_result.
            state (run_state (loop_state_of (iteration_body ev registry graph s))) k =
              tool_result k) \<and>
         (\<forall>k. k \<notin> dom tool_result \<longrightarrow>
            state (run_state (loop_state_of (iteration_body ev registry graph s))) k = st' k)"
proof -
  have "state (run_state (loop_state_of (iteration_body ev registry graph s))) =
          st' ++ tool_result"
    using assms
    by (simp add: iteration_body_def loop_state_of_def Let_def split: option.splits)
  then show ?thesis
    by (auto simp: map_add_dom_app_simps)
qed

theorem merge_right_biased_witness:
  "find_node merge_graph (current merge_start) =
     Some \<lparr>n_id = ''a'', tool_name = ''set_x'', config = Map.empty\<rparr> \<and>
   run_tool [''set_x'' \<mapsto> tool_set_x] ''set_x'' (ls_world merge_start)
       (state (run_state merge_start)) =
     (Inr [''x'' \<mapsto> VInt 1], demo_world, [''x'' \<mapsto> VInt 0, ''y'' \<mapsto> VInt 2]) \<and>
   state (run_state (loop_state_of
       (iteration_body demo_eval [''set_x'' \<mapsto> tool_set_x] merge_graph merge_start))) =
     [''x'' \<mapsto> VInt 1, ''y'' \<mapsto> VInt 2]"
proof -
  have n: "find_node merge_graph (current merge_start) =
     Some \<lparr>n_id = ''a'', tool_name = ''set_x'', config = Map.empty\<rparr>"
    by (simp add: find_node_def merge_graph_def merge_start_def)
  have t: "run_tool [''set_x'' \<mapsto> tool_set_x]
       (tool_name \<lparr>n_id = ''a'', tool_name = ''set_x'', config = Map.empty\<rparr>)
       (ls_world merge_start) (state (run_state merge_start)) =
     (Inr [''x'' \<mapsto> VInt 1], demo_world, [''x'' \<mapsto> VInt 0, ''y'' \<mapsto> VInt 2])"
    by (simp add: run_tool_def get_tool_def tool_set_x_def merge_start_def)
  have m: "[''x'' \<mapsto> VInt 0, ''y'' \<mapsto> VInt 2] ++ [''x'' \<mapsto> VInt 1] =
             [''x'' \<mapsto> VInt 1, ''y'' \<mapsto> VInt 2]"
    by (rule ext) simp
  show ?thesis
    using merge_right_biased [OF n t, of demo_eval] n t m by simp
qed

lemma iteration_continue_fields:
  assumes "iteration_body ev registry graph s = Continue s'"
  shows "status (run_state s') = status (run_state s)"
    and "run_id (run_state s') = run_id (run_state s)"
    and "graph_id (run_state s') = graph_id (run_state s)"
    and "current_node_id (run_state s') = Some (current s')"
    and "\<exists>node. find_node graph (current s) = Some node \<and>
           logs (run_state s') =
             logs (run_state s) @ [executed_entry node (state (run_state s'))]"
  using assms
  by (auto simp: iteration_body_def Let_def split: option.splits prod.splits sum.splits)

lemma after_iterations_invariant:
  "after_iterations ev registry graph k s = Some s' \<Longrightarrow>
   status (run_state s') = status (run_state s) \<and>
   run_id (run_state s') = run_id (run_state s) \<and>
   graph_id (run_state s') = graph_id (run_state s) \<and>
   length (logs (run_state s')) = length (logs (run_state s)) + k"
proof (induction k arbitrary: s)
  case 0
  then show ?case by simp
next
  case (Suc k)
  then obtain s1 where c: "iteration_body ev registry graph s = Continue s1"
    and a: "after_iterations ev registry graph k s1 = Some s'"
    by (cases "iteration_body ev registry graph s") auto
  have "length (logs (run_state s1)) = Suc (length (logs (run_state s)))"
    using iteration_continue_fields(5) [OF c] by auto
  with Suc.IH [OF a] iteration_continue_fields(1-3) [OF c] show ?case by simp
qed

lemma run_tool_error_cases:
  assumes "run_tool registry name w st = (Inl e, w', st')"
  shows "(registry name = None \<and>
            e = KeyError (''Tool '' @ quoted name @ '' not found in registry'') \<and>
            w' = w \<and> st' = st) \<or>
         (\<exists>func. registry name = Some func \<and>
            ((func w st = (Raises, w', st') \<and> e = ToolError) \<or>
             (func w st = (ReturnsNonDict, w', st') \<and>
              e = ValueError ''Tool must return a dict to merge into state'')))"
proof (cases "registry name")
  case None
  then show ?thesis using assms by (auto simp: run_tool_def get_tool_def)
next
  case (Some func)
  obtain r w1 st1 where f: "func w st = (r, w1, st1)" by (cases "func w st") auto
  show ?thesis using assms Some f
    by (cases r) (auto simp: run_tool_def get_tool_def)
qed

text \<open>
  Claim C5. For a graph id that is not in the graph store, running the graph fails with
  the not-found error (Python's \<open>KeyError\<close>) raised to the caller, before any run record
  is created: the stores are as they were, the run store included.
\<close>

theorem unknown_graph_not_found:
  assumes "gid \<notin> dom (graphs sys)"
  shows "run_graph_once ev uuid sys gid initial_state registry max_steps =
           Inl (KeyError (''Graph '' @ quoted gid @ '' not found''), sys)"
  using assms by (simp add: run_graph_once_def domIff)

theorem unknown_graph_not_found_witness:
  "''nowhere'' \<notin> dom (graphs demo_system) \<and>
   run_graph_once demo_eval ''run-1'' demo_system ''nowhere'' Map.empty demo_registry 100 =
     Inl (KeyError ''Graph 'nowhere' not found'', demo_system) \<and>
   runs demo_system = Map.empty"
proof -
  have d: "''nowhere'' \<notin> dom (graphs demo_system)"
    by (simp add: demo_system_def)
  show ?thesis
    using unknown_graph_not_found [OF d, of demo_eval "''run-1''" Map.empty demo_registry 100] d
    by (simp add: quoted_def demo_system_def)
qed

lemma run_graph_once_missing_node:
  assumes "graphs sys gid = Some graph"
    and "after_iterations ev registry graph k
           (initial_loop_state sys graph uuid gid initial_state) = Some s"
    and "find_node graph (current s) = None"
    and "int k < max_steps"
  shows "run_graph_once ev uuid sys gid initial_state registry max_steps =
           Inr ((run_state s)\<lparr>status := FAILED,
                               logs := logs (run_state s) @ [missing_entry s]\<rparr>,
                sys\<lparr>runs := (runs sys)
                       (uuid \<mapsto> (run_state s)\<lparr>status := FAILED,
                                                 logs := logs (run_state s) @ [missing_entry s]\<rparr>),
                    env := ls_world s\<rparr>)"
proof -
  from assms(4) have "k < nat max_steps" by simp
  then obtain n where n: "nat max_steps = k + Suc n"
    using less_imp_Suc_add by fastforce
  have "for_loop ev registry graph (nat max_steps)
          (initial_loop_state sys graph uuid gid initial_state) =
        for_loop ev registry graph (Suc n) s"
    unfolding n by (rule for_loop_after [OF assms(2)])
  also have "\<dots> = Inr (s\<lparr>run_state := (run_state s)
              \<lparr>status := FAILED, logs := logs (run_state s) @ [missing_entry s]\<rparr>\<rparr>)"
    by (simp add: iteration_body_missing [OF assms(3)])
  finally show ?thesis
    using assms(1) by (simp add: run_graph_once_def stored_def)
qed

text \<open>
  Claim C6. When, after any number of passes, the current node id matches no node of
  the graph, the run is marked FAILED, a log entry noting the missing node is appended
  and the loop stops. The caller gets the run state back, not an exception, and the run
  store holds the same record.
\<close>

theorem missing_node_fails_run:
  assumes "graphs sys gid = Some graph"
    and "after_iterations ev registry graph k
           (initial_loop_state sys graph uuid gid initial_state) = Some s"
    and "find_node graph (current s) = None"
    and "int k < max_steps"
  shows "run_graph_once ev uuid sys gid initial_state registry max_steps =
           Inr ((run_state s)\<lparr>status := FAILED,
                               logs := logs (run_state s) @ [missing_entry s]\<rparr>,
                sys\<lparr>runs := (runs sys)
                       (uuid \<mapsto> (run_state s)\<lparr>status := FAILED,
                                                 logs := logs (run_state s) @ [missing_entry s]\<rparr>),
                    env := ls_world s\<rparr>)"
  using assms by (rule run_graph_once_missing_node)

lemma dangling_first_pass:
  "after_iterations demo_eval demo_registry dangling_graph 1
     (initial_loop_state demo_system dangling_graph ''run-1'' ''dangling'' Map.empty) =
   Some dangling_after_one"
  by (simp add: initial_loop_state_def demo_system_def dangling_graph_def iteration_body_def
      find_node_def run_tool_def get_tool_def demo_registry_def tool_count_def
      find_next_edge_def executed_entry_def dangling_after_one_def Let_def)

theorem missing_node_fails_run_witness:
  "graphs demo_system ''dangling'' = Some dangling_graph \<and>
   after_iterations demo_eval demo_registry dangling_graph 1
     (initial_loop_state demo_system dangling_graph ''run-1'' ''dangling'' Map.empty) =
     Some dangling_after_one \<and>
   find_node dangling_graph (current dangling_after_one) = None \<and>
   int 1 < 100 \<and>
   run_graph_once demo_eval ''run-1'' demo_system ''dangling'' Map.empty demo_registry 100 =
     Inr ((run_state dangling_after_one)
            \<lparr>status := FAILED,
             logs := logs (run_state dangling_after_one) @
               [\<lparr>node_id = ''ghost'', state_snapshot = [''n'' \<mapsto> VInt 1],
                 message = Some ''Node 'ghost' not found in graph''\<rparr>]\<rparr>,
          demo_system\<lparr>runs := (runs demo_system)
              (''run-1'' \<mapsto> (run_state dangling_after_one)
                 \<lparr>status := FAILED,
                  logs := logs (run_state dangling_after_one) @
                    [\<lparr>node_id = ''ghost'', state_snapshot = [''n'' \<mapsto> VInt 1],
                      message = Some ''Node 'ghost' not found in graph''\<rparr>]\<rparr>),
            env := demo_world\<rparr>)"
proof -
  have g: "graphs demo_system ''dangling'' = Some dangling_graph"
    by (simp add: demo_system_def)
  have n: "find_node dangling_graph (current dangling_after_one) = None"
    by (simp add: find_node_def dangling_graph_def dangling_after_one_def)
  have k: "int 1 < 100" by simp
  have m: "missing_entry dangling_after_one =
             \<lparr>node_id = ''ghost'', state_snapshot = [''n'' \<mapsto> VInt 1],
              message = Some ''Node 'ghost' not found in graph''\<rparr>"
    by (simp add: missing_entry_def dangling_after_one_def quoted_def)
  have w: "ls_world dangling_after_one = demo_world"
    by (simp add: dangling_after_one_def)
  show ?thesis
    using missing_node_fails_run [OF g dangling_first_pass n k] g dangling_first_pass n m w
    by simp
qed

text \<open>
  Claim C10. When the invocation of a node's tool fails (the tool raises, its name is
  not registered, or it returns something that is not a mapping), the exception leaves
  \<open>run_graph_once\<close>. No log entry is appended for that pass: the record in the run store
  keeps status RUNNING and the log entries of the passes completed before.
\<close>

theorem tool_failure_propagates:
  assumes "graphs sys gid = Some graph"
    and "after_iterations ev registry graph k
           (initial_loop_state sys graph uuid gid initial_state) = Some s"
    and "find_node graph (current s) = Some node"
    and "run_tool registry (tool_name node) (ls_world s) (state (run_state s)) =
           (Inl e, w', st')"
    and "int k < max_steps"
  shows "run_graph_once ev uuid sys gid initial_state registry max_steps =
           Inl (e, sys\<lparr>runs := (runs sys)(uuid \<mapsto> (run_state s)\<lparr>state := st'\<rparr>),
                      env := w'\<rparr>) \<and>
         status (run_state s) = RUNNING \<and>
         length (logs (run_state s)) = k \<and>
         ((registry (tool_name node) = None \<and>
             e = KeyError (''Tool '' @ quoted (tool_name node) @ '' not found in registry'')) \<or>
          (\<exists>func. registry (tool_name node) = Some func \<and>
             ((fst (func (ls_world s) (state (run_state s))) = Raises \<and> e = ToolError) \<or>
              (fst (func (ls_world s) (state (run_state s))) = ReturnsNonDict \<and>
               e = ValueError ''Tool must return a dict to merge into state''))))"
proof -
  from assms(5) have "k < nat max_steps" by simp
  then obtain n where n: "nat max_steps = k + Suc n"
    using less_imp_Suc_add by fastforce
  have "for_loop ev registry graph (nat max_steps)
          (initial_loop_state sys graph uuid gid initial_state) =
        for_loop ev registry graph (Suc n) s"
    unfolding n by (rule for_loop_after [OF assms(2)])
  also have "\<dots> = Inl (e, s\<lparr>ls_world := w', run_state := (run_state s)\<lparr>state := st'\<rparr>\<rparr>)"
    by (simp add: iteration_body_raised [OF assms(3,4)])
  finally have r: "run_graph_once ev uuid sys gid initial_state registry max_steps =
           Inl (e, sys\<lparr>runs := (runs sys)(uuid \<mapsto> (run_state s)\<lparr>state := st'\<rparr>),
                      env := w'\<rparr>)"
    using assms(1) by (simp add: run_graph_once_def stored_def)
  have i: "status (run_state s) = RUNNING" "length (logs (run_state s)) = k"
    using after_iterations_invariant [OF assms(2)] by (simp_all add: initial_loop_state_def)
  have c: "(registry (tool_name node) = None \<and>
             e = KeyError (''Tool '' @ quoted (tool_name node) @ '' not found in registry'')) \<or>
          (\<exists>func. registry (tool_name node) = Some func \<and>
             ((fst (func (ls_world s) (state (run_state s))) = Raises \<and> e = ToolError) \<or>
              (fst (func (ls_world s) (state (run_state s))) = ReturnsNonDict \<and>
               e = ValueError ''Tool must return a dict to merge into state'')))"
    using run_tool_error_cases [OF assms(4)] by auto
  from r i c show ?thesis by simp
qed

lemma fallback_first_pass:
  "after_iterations demo_eval demo_registry fallback_graph 1
     (initial_loop_state demo_system fallback_graph ''run-2'' ''fallback'' Map.empty) =
   Some fallback_after_one"
  by (simp add: initial_loop_state_def demo_system_def fallback_graph_def iteration_body_def
      find_node_def run_tool_def get_tool_def demo_registry_def tool_count_def demo_eval_def
      find_next_edge_def executed_entry_def fallback_after_one_def Let_def)

theorem tool_failure_propagates_witness:
  "graphs demo_system ''fallback'' = Some fallback_graph \<and>
   after_iterations demo_eval demo_registry fallback_graph 1
     (initial_loop_state demo_system fallback_graph ''run-2'' ''fallback'' Map.empty) =
     Some fallback_after_one \<and>
   find_node fallback_graph (current fallback_after_one) =
     Some \<lparr>n_id = ''b'', tool_name = ''unregistered'', config = Map.empty\<rparr> \<and>
   run_tool demo_registry ''unregistered'' (ls_world fallback_after_one)
       (state (run_state fallback_after_one)) =
     (Inl (KeyError ''Tool 'unregistered' not found in registry''), demo_world,
      [''n'' \<mapsto> VInt 1]) \<and>
   int 1 < 100 \<and>
   run_graph_once demo_eval ''run-2'' demo_system ''fallback'' Map.empty demo_registry 100 =
     Inl (KeyError ''Tool 'unregistered' not found in registry'',
          demo_system\<lparr>runs := (runs demo_system)
              (''run-2'' \<mapsto> (run_state fallback_after_one)\<lparr>state := [''n'' \<mapsto> VInt 1]\<rparr>),
            env := demo_world\<rparr>) \<and>
   status (run_state fallback_after_one) = RUNNING \<and>
   length (logs (run_state fallback_after_one)) = 1"
proof -
  have g: "graphs demo_system ''fallback'' = Some fallback_graph"
    by (simp add: demo_system_def)
  have n: "find_node fallback_graph (current fallback_after_one) =
     Some \<lparr>n_id = ''b'', tool_name = ''unregistered'', config = Map.empty\<rparr>"
    by (simp add: find_node_def fallback_graph_def fallback_after_one_def)
  have t: "run_tool demo_registry
       (tool_name \<lparr>n_id = ''b'', tool_name = ''unregistered'', config = Map.empty\<rparr>)
       (ls_world fallback_after_one) (state (run_state fallback_after_one)) =
     (Inl (KeyError ''Tool 'unregistered' not found in registry''), demo_world,
      [''n'' \<mapsto> VInt 1])"
    by (simp add: run_tool_def get_tool_def demo_registry_def fallback_after_one_def quoted_def)
  have k: "int 1 < 100" by simp
  show ?thesis
    using tool_failure_propagates [OF g fallback_first_pass n t k] g fallback_first_pass n t
    by simp
qed

lemma iteration_break_cases:
  assumes "iteration_body ev registry graph s = Break s'"
  shows "(find_node graph (current s) = None \<and>
            s' = s\<lparr>run_state := (run_state s)
                    \<lparr>status := FAILED, logs := logs (run_state s) @ [missing_entry s]\<rparr>\<rparr>) \<or>
         (status (run_state s') = COMPLETED \<and> current_node_id (run_state s') = None)"
  using assms
  by (auto simp: iteration_body_def Let_def split: option.splits prod.splits sum.splits)

lemma for_loop_terminal:
  assumes "current_node_id (run_state s) = Some (current s)"
    and "for_loop ev registry graph n s = Inr s'"
  shows "(status (run_state s') = COMPLETED \<and> current_node_id (run_state s') = None) \<or>
         (status (run_state s') = FAILED \<and> logs (run_state s') \<noteq> [] \<and>
          current_node_id (run_state s') = Some (node_id (last (logs (run_state s')))))"
  using assms
proof (induction n arbitrary: s)
  case 0
  then show ?case by (auto simp: max_steps_reached_def abort_entry_def)
next
  case (Suc n)
  show ?case
  proof (cases "iteration_body ev registry graph s")
    case (Continue s1)
    then have "for_loop ev registry graph n s1 = Inr s'"
      using Suc.prems(2) by simp
    then show ?thesis
      using Suc.IH iteration_continue_fields(4) [OF Continue] by blast
  next
    case (Break s1)
    then have "s1 = s'" using Suc.prems(2) by simp
    then show ?thesis
      using iteration_break_cases [OF Break] Suc.prems(1)
      by (auto simp: missing_entry_def)
  next
    case (Raised e s1)
    then show ?thesis using Suc.prems(2) by simp
  qed
qed

text \<open>
  Claim C7, as stated, fails: a run that stops at a missing node returns FAILED with its
  current node id still set. The graph \<open>a \<rightarrow> ghost\<close>, where \<open>ghost\<close> is no node,
  returns status FAILED and current node id \<open>ghost\<close>.
\<close>

theorem failed_run_keeps_current_node:
  "map_option status (returned
     (run_graph_once demo_eval ''run-1'' demo_system ''dangling'' Map.empty demo_registry 100)) =
     Some FAILED \<and>
   map_option current_node_id (returned
     (run_graph_once demo_eval ''run-1'' demo_system ''dangling'' Map.empty demo_registry 100)) =
     Some (Some ''ghost'')"
proof -
  have g: "graphs demo_system ''dangling'' = Some dangling_graph"
    by (simp add: demo_system_def)
  have n: "find_node dangling_graph (current dangling_after_one) = None"
    by (simp add: find_node_def dangling_graph_def dangling_after_one_def)
  have k: "int 1 < 100" by simp
  show ?thesis
    unfolding run_graph_once_missing_node [OF g dangling_first_pass n k]
    by (simp add: returned_def dangling_after_one_def)
qed

text \<open>
  Claim C7, amended. Every run state that \<open>run_graph_once\<close> returns is COMPLETED or
  FAILED. A COMPLETED run has current node id null. A FAILED run (missing node or step
  limit) keeps the id of the node at which it stopped, the node id of its last log
  entry.
\<close>

theorem terminal_current_node:
  assumes "run_graph_once ev uuid sys gid initial_state registry max_steps = Inr (rs, sys')"
  shows "(status rs = COMPLETED \<and> current_node_id rs = None) \<or>
         (status rs = FAILED \<and> logs rs \<noteq> [] \<and>
          current_node_id rs = Some (node_id (last (logs rs))))"
proof -
  from assms obtain graph where g: "graphs sys gid = Some graph"
    by (cases "graphs sys gid") (auto simp: run_graph_once_def)
  from assms g obtain s' where
    l: "for_loop ev registry graph (nat max_steps)
          (initial_loop_state sys graph uuid gid initial_state) = Inr s'"
    and r: "rs = run_state s'"
    by (auto simp: run_graph_once_def split: sum.splits prod.splits)
  have "current_node_id (run_state (initial_loop_state sys graph uuid gid initial_state)) =
          Some (current (initial_loop_state sys graph uuid gid initial_state))"
    by (simp add: initial_loop_state_def)
  from for_loop_terminal [OF this l] r show ?thesis by simp
qed

theorem terminal_current_node_witness:
  "run_graph_once demo_eval ''run-1'' demo_system ''dangling'' Map.empty demo_registry 100 =
     Inr ((run_state dangling_after_one)
            \<lparr>status := FAILED,
             logs := logs (run_state dangling_after_one) @ [missing_entry dangling_after_one]\<rparr>,
          demo_system\<lparr>runs := (runs demo_system)
              (''run-1'' \<mapsto> (run_state dangling_after_one)
                 \<lparr>status := FAILED,
                  logs := logs (run_state dangling_after_one) @
                    [missing_entry dangling_after_one]\<rparr>),
            env := ls_world dangling_after_one\<rparr>) \<and>
   current_node_id ((run_state dangling_after_one)
            \<lparr>status := FAILED,
             logs := logs (run_state dangling_after_one) @ [missing_entry dangling_after_one]\<rparr>) =
     Some ''ghost'' \<and>
   node_id (missing_entry dangling_after_one) = ''ghost''"
proof -
  have g: "graphs demo_system ''dangling'' = Some dangling_graph"
    by (simp add: demo_system_def)
  have n: "find_node dangling_graph (current dangling_after_one) = None"
    by (simp add: find_node_def dangling_graph_def dangling_after_one_def)
  have k: "int 1 < 100" by simp
  note r = run_graph_once_missing_node [OF g dangling_first_pass n k]
  show ?thesis
    using terminal_current_node [OF r] r
    by (simp add: dangling_after_one_def missing_entry_def)
qed

lemma after_iterations_never_leaves:
  assumes "I s"
    and step: "\<And>s. I s \<Longrightarrow> \<exists>s'. iteration_body ev registry graph s = Continue s' \<and> I s'"
  shows "\<exists>s'. after_iterations ev registry graph k s = Some s' \<and> I s'"
  using assms(1)
proof (induction k arbitrary: s)
  case 0
  then show ?case by simp
next
  case (Suc k)
  from step [OF Suc.prems] obtain s1 where
    c: "iteration_body ev registry graph s = Continue s1" and i: "I s1"
    by blast
  from Suc.IH [OF i] c show ?case by simp
qed

lemma find_node_member: "find_node graph cur = Some node \<Longrightarrow> node \<in> set (nodes graph)"
  by (auto simp: find_node_def find_Some_iff)

lemma after_iterations_logs:
  "after_iterations ev registry graph k s = Some s' \<Longrightarrow>
   \<exists>es. logs (run_state s') = logs (run_state s) @ es \<and> length es = k \<and>
     (\<forall>e \<in> set es. \<exists>node \<in> set (nodes graph).
        node_id e = n_id node \<and>
        message e = Some (''Executed tool '' @ quoted (tool_name node)))"
proof (induction k arbitrary: s)
  case 0
  then show ?case by simp
next
  case (Suc k)
  then obtain s1 where c: "iteration_body ev registry graph s = Continue s1"
    and a: "after_iterations ev registry graph k s1 = Some s'"
    by (cases "iteration_body ev registry graph s") auto
  from iteration_continue_fields(5) [OF c] obtain node where
    n: "find_node graph (current s) = Some node"
    and l: "logs (run_state s1) =
              logs (run_state s) @ [executed_entry node (state (run_state s1))]"
    by blast
  from Suc.IH [OF a] obtain es where
    e: "logs (run_state s') = logs (run_state s1) @ es" "length es = k"
      "\<forall>e \<in> set es. \<exists>node \<in> set (nodes graph).
         node_id e = n_id node \<and>
         message e = Some (''Executed tool '' @ quoted (tool_name node))"
    by blast
  have "logs (run_state s') =
          logs (run_state s) @ (executed_entry node (state (run_state s1)) # es)"
    using e(1) l by simp
  moreover have "length (executed_entry node (state (run_state s1)) # es) = Suc k"
    using e(2) by simp
  moreover have "\<forall>e \<in> set (executed_entry node (state (run_state s1)) # es).
      \<exists>node \<in> set (nodes graph).
        node_id e = n_id node \<and>
        message e = Some (''Executed tool '' @ quoted (tool_name node))"
    using e(3) find_node_member [OF n] by (auto simp: executed_entry_def)
  ultimately show ?case by blast
qed

lemma run_graph_once_step_limit:
  assumes "graphs sys gid = Some graph"
    and "I (initial_loop_state sys graph uuid gid initial_state)"
    and "\<And>s. I s \<Longrightarrow> \<exists>s'. iteration_body ev registry graph s = Continue s' \<and> I s'"
  shows "\<exists>rs sys'.
           run_graph_once ev uuid sys gid initial_state registry max_steps = Inr (rs, sys') \<and>
           runs sys' uuid = Some rs \<and>
           status rs = FAILED \<and>
           length (logs rs) = nat max_steps + 1 \<and>
           message (last (logs rs)) =
             Some ''Max steps reached; aborting (possible infinite loop)'' \<and>
           (\<forall>e \<in> set (butlast (logs rs)). \<exists>node \<in> set (nodes graph).
              node_id e = n_id node \<and>
              message e = Some (''Executed tool '' @ quoted (tool_name node)))"
proof -
  let ?s0 = "initial_loop_state sys graph uuid gid initial_state"
  from after_iterations_never_leaves [of I ?s0 ev registry graph "nat max_steps", OF assms(2,3)]
  obtain s' where a: "after_iterations ev registry graph (nat max_steps) ?s0 = Some s'"
    by blast
  from after_iterations_logs [OF a] obtain es where
    e: "logs (run_state s') = es" "length es = nat max_steps"
      "\<forall>e \<in> set es. \<exists>node \<in> set (nodes graph).
         node_id e = n_id node \<and>
         message e = Some (''Executed tool '' @ quoted (tool_name node))"
    by (auto simp: initial_loop_state_def)
  have "for_loop ev registry graph (nat max_steps + 0) ?s0 = for_loop ev registry graph 0 s'"
    by (rule for_loop_after [OF a])
  then have l: "for_loop ev registry graph (nat max_steps) ?s0 = Inr (max_steps_reached s')"
    by simp
  have r: "run_graph_once ev uuid sys gid initial_state registry max_steps =
             Inr (run_state (max_steps_reached s'), stored sys uuid (max_steps_reached s'))"
    using assms(1) l by (simp add: run_graph_once_def)
  have f: "logs (run_state (max_steps_reached s')) = es @ [abort_entry s']"
    "status (run_state (max_steps_reached s')) = FAILED"
    using e(1) by (simp_all add: max_steps_reached_def)
  show ?thesis
    using r f e(2,3) by (simp add: stored_def abort_entry_def)
qed

lemma self_loop_goes_on:
  assumes "current s = ''loop'' \<and> (\<exists>i. 0 \<le> i \<and> state (run_state s) ''n'' = Some (VInt i))"
  shows "\<exists>s'. iteration_body demo_eval demo_registry self_loop_graph s = Continue s' \<and>
           (current s' = ''loop'' \<and>
            (\<exists>i. 0 \<le> i \<and> state (run_state s') ''n'' = Some (VInt i)))"
proof -
  from assms obtain i where c: "current s = ''loop''"
    and i: "0 \<le> i" "state (run_state s) ''n'' = Some (VInt i)"
    by blast
  have n: "find_node self_loop_graph (current s) =
             Some \<lparr>n_id = ''loop'', tool_name = ''count'', config = Map.empty\<rparr>"
    using c by (simp add: find_node_def self_loop_graph_def)
  have t: "run_tool demo_registry ''count'' (ls_world s) (state (run_state s)) =
             (Inr [''n'' \<mapsto> VInt (i + 1)], ls_world s, state (run_state s))"
    using i(2) by (simp add: run_tool_def get_tool_def demo_registry_def tool_count_def)
  have e: "find_next_edge demo_eval self_loop_graph ''loop'' (ls_world s)
             (state (run_state s) ++ [''n'' \<mapsto> VInt (i + 1)]) =
           Some \<lparr>source = ''loop'', target = ''loop'', condition = Some ''state['n'] > 0''\<rparr>"
    using i(1) by (simp add: find_next_edge_def self_loop_graph_def demo_eval_def)
  have "iteration_body demo_eval demo_registry self_loop_graph s =
          Continue \<lparr>ls_world = ls_world s,
            run_state = (run_state s)
              \<lparr>state := state (run_state s) ++ [''n'' \<mapsto> VInt (i + 1)],
               logs := logs (run_state s) @
                 [executed_entry \<lparr>n_id = ''loop'', tool_name = ''count'', config = Map.empty\<rparr>
                    (state (run_state s) ++ [''n'' \<mapsto> VInt (i + 1)])],
               current_node_id := Some ''loop''\<rparr>,
            current = ''loop''\<rparr>"
    using n t e c by (simp add: iteration_body_def Let_def)
  then show ?thesis using i(1) by simp
qed

text \<open>
  Claim C2, as stated, fails in its last part: the single self-loop node whose guard
  \<open>state['n'] > 0\<close> never becomes false, run with a budget of 5 steps, ends FAILED with
  6 log entries, not 5: one for each of the 5 node executions and one for the abort.
\<close>

theorem self_loop_log_length:
  "map_option status (returned
     (run_graph_once demo_eval ''run-3'' loop_system ''self_loop'' [''n'' \<mapsto> VInt 0]
        demo_registry 5)) = Some FAILED \<and>
   map_option (length \<circ> logs) (returned
     (run_graph_once demo_eval ''run-3'' loop_system ''self_loop'' [''n'' \<mapsto> VInt 0]
        demo_registry 5)) = Some 6"
proof -
  have g: "graphs loop_system ''self_loop'' = Some self_loop_graph"
    by (simp add: loop_system_def)
  have i: "current (initial_loop_state loop_system self_loop_graph ''run-3'' ''self_loop''
               [''n'' \<mapsto> VInt 0]) = ''loop'' \<and>
           (\<exists>i. 0 \<le> i \<and>
              state (run_state (initial_loop_state loop_system self_loop_graph ''run-3''
                ''self_loop'' [''n'' \<mapsto> VInt 0])) ''n'' = Some (VInt i))"
    by (simp add: initial_loop_state_def self_loop_graph_def)
  from run_graph_once_step_limit
    [where I = "\<lambda>s. current s = ''loop'' \<and>
                  (\<exists>i. 0 \<le> i \<and> state (run_state s) ''n'' = Some (VInt i))",
     OF g i self_loop_goes_on, of 5]
  show ?thesis by (auto simp: returned_def)
qed

text \<open>
  Claim C2, amended. When every pass of a run finds its node, gets a mapping from the
  tool and finds a next edge (a cycle whose guard never becomes false: some property of
  the loop variables holds at the start and every pass from it goes on and keeps it),
  the run returns FAILED after exactly \<open>max_steps\<close> node executions. Its log has
  \<open>max_steps + 1\<close> entries: one per node execution, then the entry that describes the
  step-limit abort.
\<close>

theorem unending_cycle_hits_step_limit:
  assumes "graphs sys gid = Some graph"
    and "I (initial_loop_state sys graph uuid gid initial_state)"
    and "\<And>s. I s \<Longrightarrow> \<exists>s'. iteration_body ev registry graph s = Continue s' \<and> I s'"
  shows "\<exists>rs sys'.
           run_graph_once ev uuid sys gid initial_state registry max_steps = Inr (rs, sys') \<and>
           runs sys' uuid = Some rs \<and>
           status rs = FAILED \<and>
           length (logs rs) = nat max_steps + 1 \<and>
           message (last (logs rs)) =
             Some ''Max steps reached; aborting (possible infinite loop)'' \<and>
           (\<forall>e \<in> set (butlast (logs rs)). \<exists>node \<in> set (nodes graph).
              node_id e = n_id node \<and>
              message e = Some (''Executed tool '' @ quoted (tool_name node)))"
  using assms by (rule run_graph_once_step_limit)

theorem unending_cycle_hits_step_limit_witness:
  "graphs loop_system ''self_loop'' = Some self_loop_graph \<and>
   current (initial_loop_state loop_system self_loop_graph ''run-3'' ''self_loop''
      [''n'' \<mapsto> VInt 0]) = ''loop'' \<and>
   state (run_state (initial_loop_state loop_system self_loop_graph ''run-3''
      ''self_loop'' [''n'' \<mapsto> VInt 0])) ''n'' = Some (VInt 0) \<and>
   map_option status (returned
     (run_graph_once demo_eval ''run-3'' loop_system ''self_loop'' [''n'' \<mapsto> VInt 0]
        demo_registry 5)) = Some FAILED \<and>
   map_option (length \<circ> logs) (returned
     (run_graph_once demo_eval ''run-3'' loop_system ''self_loop'' [''n'' \<mapsto> VInt 0]
        demo_registry 5)) = Some (5 + 1) \<and>
   map_option (message \<circ> last \<circ> logs) (returned
     (run_graph_once demo_eval ''run-3'' loop_system ''self_loop'' [''n'' \<mapsto> VInt 0]
        demo_registry 5)) =
     Some (Some ''Max steps reached; aborting (possible infinite loop)'')"
proof -
  have g: "graphs loop_system ''self_loop'' = Some self_loop_graph"
    by (simp add: loop_system_def)
  have c: "current (initial_loop_state loop_system self_loop_graph ''run-3'' ''self_loop''
               [''n'' \<mapsto> VInt 0]) = ''loop''"
    and n: "state (run_state (initial_loop_state loop_system self_loop_graph ''run-3''
                ''self_loop'' [''n'' \<mapsto> VInt 0])) ''n'' = Some (VInt 0)"
    by (simp_all add: initial_loop_state_def self_loop_graph_def)
  have i: "current (initial_loop_state loop_system self_loop_graph ''run-3'' ''self_loop''
               [''n'' \<mapsto> VInt 0]) = ''loop'' \<and>
           (\<exists>i. 0 \<le> i \<and>
              state (run_state (initial_loop_state loop_system self_loop_graph ''run-3''
                ''self_loop'' [''n'' \<mapsto> VInt 0])) ''n'' = Some (VInt i))"
    using c n by simp
  from unending_cycle_hits_step_limit
    [where I = "\<lambda>s. current s = ''loop'' \<and>
                  (\<exists>i. 0 \<le> i \<and> state (run_state s) ''n'' = Some (VInt i))",
     OF g i self_loop_goes_on, of 5]
  obtain rs sys' where
    "run_graph_once demo_eval ''run-3'' loop_system ''self_loop'' [''n'' \<mapsto> VInt 0]
       demo_registry 5 = Inr (rs, sys')"
    "status rs = FAILED" "length (logs rs) = nat 5 + 1"
    "message (last (logs rs)) = Some ''Max steps reached; aborting (possible infinite loop)''"
    by blast
  then show ?thesis using g c n by (simp add: returned_def)
qed

text \<open>
  Claim C8. A log entry's snapshot is to be an independent deep copy of the state, which
  no later mutation changes. The source takes the snapshot with \<open>state.copy()\<close>, a
  copy of the top-level mapping that shares every nested object with the live state, so
  the claim does not hold of it: with a tool that appends to the list under \<open>items\<close>
  in place, the snapshot of the first log entry shows \<open>[1]\<close> after the first pass and
  \<open>[1, 1]\<close> after the second.
\<close>

theorem nested_mutation_reaches_snapshot:
  "map_option first_snapshot_items
     (after_iterations demo_eval nested_registry nested_graph 1 nested_start) =
     Some (Some [VInt 1]) \<and>
   map_option first_snapshot_items
     (after_iterations demo_eval nested_registry nested_graph 2 nested_start) =
     Some (Some [VInt 1, VInt 1])"
  by (simp add: numeral_2_eq_2 nested_start_def initial_loop_state_def loop_system_def
      nested_graph_def iteration_body_def find_node_def run_tool_def get_tool_def
      nested_registry_def tool_append_def find_next_edge_def executed_entry_def Let_def
      first_snapshot_items_def read_list_def)














end
